theory Spec2Isabelle
  imports Main "HOL-Library.AList"
begin

section \<open>The chat server of \<open>websocket-chat/server.js\<close>\<close>

text \<open>
  The server keeps two JavaScript maps, \<open>users\<close> (socket id to user object) and
  \<open>rooms\<close> (lower-cased room name to \<open>Room\<close> object), and reacts to the events of each
  connected socket. Every handler is embedded as a function from the state before the event
  to the state after it together with the list of \<open>emit\<close> calls it made, in the order of
  the source.

  \<^item> Socket ids, user names, room names and message texts are strings.
  \<^item> \<open>Date.now()\<close> and \<open>new Date()\<close> are read off a clock value that comes with each
    event (one reading per handler run), in milliseconds.
  \<^item> \<open>rooms\<close> is iterated in insertion order by \<open>rooms.values()\<close>, so it is an
    association list; \<open>Map.set\<close> is \<open>AList.update\<close>, which keeps the position of an
    existing key and appends a new one.
  \<^item> A JavaScript \<open>Set\<close> of socket ids is a list in insertion order without duplicates.
  \<^item> The HTTP endpoints only read the two maps, and the array \<open>messageHistory\<close> is
    never used; both are left out.
  \<^item> The rooms of the Socket.IO adapter (\<open>socket.join\<close>, \<open>socket.leave\<close>,
    \<open>socket.to(r).emit\<close>, \<open>io.to(r).emit\<close>) are the third component of the state:
    for each connected socket the adapter rooms it is in. A socket is put into the adapter
    room named by its own id when it connects and is taken out of every adapter room before
    its \<open>disconnect\<close> handler runs.
\<close>

subsection \<open>Data\<close>

type_synonym sid = string
type_synonym time = nat

record user =
  uid :: sid
  username :: string
  room :: string
  joinedAt :: time

text \<open>The object built by \<open>send-message\<close>; its \<open>type\<close> field is always \<open>'user'\<close>.\<close>

record message =
  msg_id :: nat
  msg_user :: string
  msg_userId :: sid
  msg_text :: string
  msg_timestamp :: time

text \<open>The object built by \<open>private-message\<close>; its \<open>type\<close> field is always \<open>'private'\<close>.\<close>

record private_message =
  pm_id :: nat
  pm_from :: string
  pm_fromId :: sid
  pm_to :: string
  pm_text :: string
  pm_timestamp :: time

record Room =
  name :: string
  room_users :: "sid list"
  messages :: "message list"
  createdAt :: time

record room_info =
  info_name :: string
  info_userCount :: nat
  info_users :: "string option list"
  info_createdAt :: time

record state =
  users :: "sid \<rightharpoonup> user"
  rooms :: "(string \<times> Room) list"
  sockets :: "(sid \<times> string list) list"

text \<open>The events a socket can raise, with their payloads.\<close>

datatype event =
    Connection
  | Join string "string option"
  | SendMessage string
  | Typing
  | StopTyping
  | SwitchRoom string
  | PrivateMsg string string string
  | Disconnect

text \<open>
  The events the server emits. \<open>SystemMessage\<close> and \<open>UserMessage\<close> are both sent under
  the event name \<open>message\<close>; the former carries \<open>user: 'System'\<close> and \<open>type: 'system'\<close>.
\<close>

datatype out_event =
    SystemMessage string time
  | UserMessage message
  | RoomHistory "message list"
  | UsersUpdate "user option list" nat
  | RoomsList "room_info list"
  | UserTyping string sid
  | UserStopTyping sid
  | PrivateMessage private_message

text \<open>One \<open>emit\<close> call: the sockets it is delivered to, and the event.\<close>

type_synonym emit = "sid list \<times> out_event"

subsection \<open>Strings, sets and the adapter\<close>

definition lower_char :: "char \<Rightarrow> char" where
  "lower_char ch =
     (let n = (of_char ch :: nat) in if 65 \<le> n \<and> n \<le> 90 then char_of (n + 32) else ch)"

text \<open>\<open>String.prototype.toLowerCase\<close> on ASCII text.\<close>

definition toLowerCase :: "string \<Rightarrow> string" where
  "toLowerCase s = map lower_char s"

definition set_add :: "'a \<Rightarrow> 'a list \<Rightarrow> 'a list" where
  "set_add x xs = (if x \<in> set xs then xs else xs @ [x])"

definition set_delete :: "'a \<Rightarrow> 'a list \<Rightarrow> 'a list" where
  "set_delete x xs = removeAll x xs"

definition connected :: "state \<Rightarrow> sid \<Rightarrow> bool" where
  "connected s c = (map_of (sockets s) c \<noteq> None)"

definition socket_join :: "sid \<Rightarrow> string \<Rightarrow> (sid \<times> string list) list \<Rightarrow> (sid \<times> string list) list" where
  "socket_join c r sk = AList.map_entry c (set_add r) sk"

definition socket_leave :: "sid \<Rightarrow> string \<Rightarrow> (sid \<times> string list) list \<Rightarrow> (sid \<times> string list) list" where
  "socket_leave c r sk = AList.map_entry c (set_delete r) sk"

text \<open>\<open>io.to(r)\<close>: every socket in adapter room \<open>r\<close>.\<close>

definition io_to :: "state \<Rightarrow> string \<Rightarrow> sid list" where
  "io_to s r = map fst (filter (\<lambda>p. r \<in> set (snd p)) (sockets s))"

text \<open>\<open>socket.to(r)\<close>: every socket in adapter room \<open>r\<close> except the sender.\<close>

definition socket_to :: "state \<Rightarrow> sid \<Rightarrow> string \<Rightarrow> sid list" where
  "socket_to s c r = filter (\<lambda>d. d \<noteq> c) (io_to s r)"

subsection \<open>The class \<open>Room\<close>\<close>

definition MAX_HISTORY :: nat where
  "MAX_HISTORY = 100"

definition new_Room :: "string \<Rightarrow> time \<Rightarrow> Room" where
  "new_Room n now = \<lparr>name = n, room_users = [], messages = [], createdAt = now\<rparr>"

definition addUser :: "Room \<Rightarrow> sid \<Rightarrow> Room" where
  "addUser R userId = R\<lparr>room_users := set_add userId (room_users R)\<rparr>"

definition removeUser :: "Room \<Rightarrow> sid \<Rightarrow> Room" where
  "removeUser R userId = R\<lparr>room_users := set_delete userId (room_users R)\<rparr>"

text \<open>\<open>push\<close>, then \<open>shift\<close> when the length has passed \<open>MAX_HISTORY\<close>.\<close>

definition addMessage :: "Room \<Rightarrow> message \<Rightarrow> Room" where
  "addMessage R m =
     (let pushed = messages R @ [m]
      in R\<lparr>messages := (if length pushed > MAX_HISTORY then tl pushed else pushed)\<rparr>)"

definition getUserCount :: "Room \<Rightarrow> nat" where
  "getUserCount R = length (room_users R)"

definition getInfo :: "(sid \<rightharpoonup> user) \<Rightarrow> Room \<Rightarrow> room_info" where
  "getInfo us R =
     \<lparr>info_name = name R,
      info_userCount = getUserCount R,
      info_users = map (\<lambda>i. map_option username (us i)) (room_users R),
      info_createdAt = createdAt R\<rparr>"

definition defaultRooms :: "string list" where
  "defaultRooms = [''General'', ''Random'', ''Tech'', ''Gaming'']"

text \<open>The state when the server starts at time \<open>t0\<close>.\<close>

definition init :: "time \<Rightarrow> state" where
  "init t0 =
     \<lparr>users = Map.empty,
      rooms = foldl (\<lambda>rs n. AList.update (toLowerCase n) (new_Room n t0) rs) [] defaultRooms,
      sockets = []\<rparr>"

subsection \<open>The handlers\<close>

text \<open>The destructuring default of \<open>const { username, room = 'general' } = data\<close>.\<close>

definition default_room :: "string option \<Rightarrow> string" where
  "default_room room_opt = (case room_opt of None \<Rightarrow> ''general'' | Some r \<Rightarrow> r)"

definition usersUpdate :: "state \<Rightarrow> Room \<Rightarrow> out_event" where
  "usersUpdate s R = UsersUpdate (map (users s) (room_users R)) (getUserCount R)"

definition on_join :: "state \<Rightarrow> time \<Rightarrow> sid \<Rightarrow> string \<Rightarrow> string option \<Rightarrow> state \<times> emit list" where
  "on_join s now c uname room_opt =
     (let room_name = default_room room_opt;
          roomKey = toLowerCase room_name;
          s1 = s\<lparr>users := (users s)(c \<mapsto>
                 \<lparr>uid = c, username = uname, room = roomKey, joinedAt = now\<rparr>)\<rparr>;
          s2 = s1\<lparr>sockets := socket_join c roomKey (sockets s1)\<rparr>;
          roomObj = addUser (case map_of (rooms s2) roomKey of
                               None \<Rightarrow> new_Room room_name now
                             | Some R \<Rightarrow> R) c;
          s3 = s2\<lparr>rooms := AList.update roomKey roomObj (rooms s2)\<rparr>
      in (s3,
          [([c], SystemMessage (''Welcome to '' @ room_name @ '', '' @ uname @ ''!'') now),
           ([c], RoomHistory (messages roomObj)),
           (socket_to s3 c roomKey, SystemMessage (uname @ '' has joined the room'') now),
           (io_to s3 roomKey, usersUpdate s3 roomObj),
           ([c], RoomsList (map (getInfo (users s3)) (map snd (rooms s3))))]))"

definition on_send_message :: "state \<Rightarrow> time \<Rightarrow> sid \<Rightarrow> string \<Rightarrow> state \<times> emit list" where
  "on_send_message s now c txt =
     (case users s c of
        None \<Rightarrow> (s, [])
      | Some u \<Rightarrow>
          (let m = \<lparr>msg_id = now, msg_user = username u, msg_userId = c,
                    msg_text = txt, msg_timestamp = now\<rparr>;
               s1 = (case map_of (rooms s) (room u) of
                       None \<Rightarrow> s
                     | Some R \<Rightarrow> s\<lparr>rooms := AList.update (room u) (addMessage R m) (rooms s)\<rparr>)
           in (s1, [(io_to s1 (room u), UserMessage m)])))"

definition on_typing :: "state \<Rightarrow> sid \<Rightarrow> state \<times> emit list" where
  "on_typing s c =
     (case users s c of
        None \<Rightarrow> (s, [])
      | Some u \<Rightarrow> (s, [(socket_to s c (room u), UserTyping (username u) c)]))"

definition on_stop_typing :: "state \<Rightarrow> sid \<Rightarrow> state \<times> emit list" where
  "on_stop_typing s c =
     (case users s c of
        None \<Rightarrow> (s, [])
      | Some u \<Rightarrow> (s, [(socket_to s c (room u), UserStopTyping c)]))"

text \<open>
  The part shared by \<open>switch-room\<close> and \<open>disconnect\<close>: when the room stored under
  \<open>key\<close> exists, take the socket out of it, tell the others and send them the new user list.
\<close>

definition leave_room :: "state \<Rightarrow> time \<Rightarrow> sid \<Rightarrow> user \<Rightarrow> string \<Rightarrow> state \<times> emit list" where
  "leave_room s now c u key =
     (case map_of (rooms s) key of
        None \<Rightarrow> (s, [])
      | Some R \<Rightarrow>
          (let R' = removeUser R c;
               s' = s\<lparr>rooms := AList.update key R' (rooms s)\<rparr>
           in (s',
               [(socket_to s' c key, SystemMessage (username u @ '' has left the room'') now),
                (io_to s' key, usersUpdate s' R')])))"

definition on_switch_room :: "state \<Rightarrow> time \<Rightarrow> sid \<Rightarrow> string \<Rightarrow> state \<times> emit list" where
  "on_switch_room s now c data_room =
     (case users s c of
        None \<Rightarrow> (s, [])
      | Some u \<Rightarrow>
          (let newRoomKey = toLowerCase data_room;
               oldRoom = room u;
               s1 = s\<lparr>sockets := socket_leave c oldRoom (sockets s)\<rparr>;
               (s2, out1) = leave_room s1 now c u oldRoom;
               s3 = s2\<lparr>sockets := socket_join c newRoomKey (sockets s2)\<rparr>;
               s4 = s3\<lparr>users := (users s3)(c \<mapsto> u\<lparr>room := newRoomKey\<rparr>)\<rparr>;
               newRoomObj = addUser (case map_of (rooms s4) newRoomKey of
                                       None \<Rightarrow> new_Room data_room now
                                     | Some R \<Rightarrow> R) c;
               s5 = s4\<lparr>rooms := AList.update newRoomKey newRoomObj (rooms s4)\<rparr>
           in (s5,
               out1 @
               [([c], RoomHistory (messages newRoomObj)),
                (socket_to s5 c newRoomKey,
                   SystemMessage (username u @ '' has joined the room'') now),
                (io_to s5 newRoomKey, usersUpdate s5 newRoomObj)])))"

definition on_private_message ::
    "state \<Rightarrow> time \<Rightarrow> sid \<Rightarrow> string \<Rightarrow> string \<Rightarrow> string \<Rightarrow> state \<times> emit list" where
  "on_private_message s now c to toId txt =
     (case users s c of
        None \<Rightarrow> (s, [])
      | Some sender \<Rightarrow>
          (let m = \<lparr>pm_id = now, pm_from = username sender, pm_fromId = c, pm_to = to,
                    pm_text = txt, pm_timestamp = now\<rparr>
           in (s, [(socket_to s c toId, PrivateMessage m), ([c], PrivateMessage m)])))"

definition on_disconnect :: "state \<Rightarrow> time \<Rightarrow> sid \<Rightarrow> state \<times> emit list" where
  "on_disconnect s now c =
     (case users s c of
        None \<Rightarrow> (s, [])
      | Some u \<Rightarrow>
          (let (s1, out) = leave_room s now c u (room u)
           in (s1\<lparr>users := (users s1)(c := None)\<rparr>, out)))"

text \<open>
  One event of socket \<open>c\<close> at clock value \<open>now\<close>. The handlers are registered inside the
  \<open>connection\<close> callback, so only a connected socket reaches them, and socket ids are not
  handed out twice while live.
\<close>

definition step :: "state \<Rightarrow> time \<Rightarrow> sid \<Rightarrow> event \<Rightarrow> state \<times> emit list" where
  "step s now c ev =
     (case ev of
        Connection \<Rightarrow>
          (if connected s c then (s, [])
           else (s\<lparr>sockets := AList.update c [c] (sockets s)\<rparr>, []))
      | _ \<Rightarrow>
          (if \<not> connected s c then (s, [])
           else (case ev of
                   Join uname room_opt \<Rightarrow> on_join s now c uname room_opt
                 | SendMessage txt \<Rightarrow> on_send_message s now c txt
                 | Typing \<Rightarrow> on_typing s c
                 | StopTyping \<Rightarrow> on_stop_typing s c
                 | SwitchRoom data_room \<Rightarrow> on_switch_room s now c data_room
                 | PrivateMsg to toId txt \<Rightarrow> on_private_message s now c to toId txt
                 | Disconnect \<Rightarrow>
                     on_disconnect (s\<lparr>sockets := AList.delete c (sockets s)\<rparr>) now c
                 | Connection \<Rightarrow> (s, []))))"

text \<open>A run: the events in the order the server processes them, each with its clock value.\<close>

fun run :: "state \<Rightarrow> (time \<times> sid \<times> event) list \<Rightarrow> state \<times> emit list" where
  "run s [] = (s, [])"
| "run s ((now, c, ev) # evs) =
     (let (s1, out1) = step s now c ev;
          (s2, out2) = run s1 evs
      in (s2, out1 @ out2))"

text \<open>The states the server can be in: the start state and whatever events lead to.\<close>

inductive reachable :: "state \<Rightarrow> bool" where
  reachable_init: "reachable (init t0)"
| reachable_step: "reachable s \<Longrightarrow> reachable (fst (step s now c ev))"

text \<open>
  The states reached when a socket raises \<open>join\<close> only while it has no entry in
  \<open>users\<close>, that is, at most once in its life.
\<close>

inductive reachable_join_once :: "state \<Rightarrow> bool" where
  join_once_init: "reachable_join_once (init t0)"
| join_once_step:
    "reachable_join_once s \<Longrightarrow> (\<forall>un ro. ev = Join un ro \<longrightarrow> users s c = None) \<Longrightarrow>
     reachable_join_once (fst (step s now c ev))"

subsection \<open>Observations\<close>

text \<open>Socket \<open>c\<close> is in the \<open>users\<close> set of the room stored under \<open>key\<close>.\<close>

definition is_member :: "state \<Rightarrow> string \<Rightarrow> sid \<Rightarrow> bool" where
  "is_member s key c =
     (case map_of (rooms s) key of None \<Rightarrow> False | Some R \<Rightarrow> c \<in> set (room_users R))"

text \<open>The events delivered to socket \<open>d\<close> by a list of \<open>emit\<close> calls, in order.\<close>

definition received :: "sid \<Rightarrow> emit list \<Rightarrow> out_event list" where
  "received d out = map snd (filter (\<lambda>p. d \<in> set (fst p)) out)"

text \<open>The \<open>id\<close> fields of the message objects in a list of \<open>emit\<close> calls, in order.\<close>

fun emitted_ids :: "emit list \<Rightarrow> nat list" where
  "emitted_ids [] = []"
| "emitted_ids ((rs, UserMessage m) # out) = msg_id m # emitted_ids out"
| "emitted_ids ((rs, PrivateMessage m) # out) = pm_id m # emitted_ids out"
| "emitted_ids (e # out) = emitted_ids out"

text \<open>The events of a run that come from sockets other than \<open>c\<close>.\<close>

definition others :: "sid \<Rightarrow> (time \<times> sid \<times> event) list \<Rightarrow> bool" where
  "others c evs = list_all (\<lambda>e. fst (snd e) \<noteq> c) evs"

subsection \<open>Example states\<close>

text \<open>Socket \<open>a\<close> has connected and has not joined.\<close>

definition connected_a :: state where
  "connected_a = fst (run (init 0) [(1, ''a'', Connection)])"

text \<open>Socket \<open>a\<close> has joined the default room as alice.\<close>

definition joined_a :: state where
  "joined_a = fst (run (init 0) [(1, ''a'', Connection), (2, ''a'', Join ''alice'' None)])"

text \<open>Socket \<open>a\<close> has joined the default room; socket \<open>b\<close> has connected and not joined.\<close>

definition joined_a_connected_b :: state where
  "joined_a_connected_b =
     fst (run (init 0) [(1, ''a'', Connection), (1, ''b'', Connection),
                        (2, ''a'', Join ''alice'' None)])"

text \<open>Sockets \<open>a\<close> and \<open>b\<close> have both joined the default room.\<close>

definition joined_a_b :: state where
  "joined_a_b =
     fst (run (init 0) [(1, ''a'', Connection), (1, ''b'', Connection),
                        (2, ''a'', Join ''alice'' None), (2, ''b'', Join ''bob'' None)])"

text \<open>As before, and then \<open>b\<close> has disconnected.\<close>

definition joined_a_gone_b :: state where
  "joined_a_gone_b =
     fst (run (init 0) [(1, ''a'', Connection), (1, ''b'', Connection),
                        (2, ''a'', Join ''alice'' None), (2, ''b'', Join ''bob'' None),
                        (3, ''b'', Disconnect)])"

text \<open>Socket \<open>a\<close> has joined the default room and then raised \<open>join\<close> again for Random.\<close>

definition joined_twice_a :: state where
  "joined_twice_a =
     fst (run (init 0) [(1, ''a'', Connection), (2, ''a'', Join ''alice'' None),
                        (3, ''a'', Join ''bob'' (Some ''Random''))])"

section \<open>The message history of a room\<close>

text \<open>
  A room whose history is within the bound keeps, after any further appends, the last
  \<open>MAX_HISTORY\<close> entries of the old history followed by the new messages.
\<close>

lemma addMessage_window:
  "length (messages R) \<le> MAX_HISTORY \<Longrightarrow>
   messages (foldl addMessage R ms) =
     drop (length (messages R @ ms) - MAX_HISTORY) (messages R @ ms)"
proof (induction ms arbitrary: R)
  case Nil
  then show ?case by simp
next
  case (Cons m ms)
  let ?h = "messages R"
  have len: "length (messages (addMessage R m)) \<le> MAX_HISTORY"
    using Cons.prems by (simp add: addMessage_def Let_def)
  have one: "messages (addMessage R m) = drop (length (?h @ [m]) - MAX_HISTORY) (?h @ [m])"
  proof (cases "length ?h < MAX_HISTORY")
    case True
    then show ?thesis by (simp add: addMessage_def Let_def)
  next
    case False
    with Cons.prems have "length ?h = MAX_HISTORY" by simp
    then show ?thesis
      by (cases "?h") (simp_all add: addMessage_def Let_def MAX_HISTORY_def)
  qed
  define X where "X = ?h @ [m]"
  define k where "k = length X - MAX_HISTORY"
  have kX: "k \<le> length X" by (simp add: k_def)
  have lenX: "length X \<le> Suc MAX_HISTORY" using Cons.prems by (simp add: X_def)
  have app: "drop k X @ ms = drop k (X @ ms)" using kX by simp
  have idx: "length (drop k (X @ ms)) - MAX_HISTORY + k = length (X @ ms) - MAX_HISTORY"
    using lenX by (simp add: k_def)
  have "messages (foldl addMessage R (m # ms)) =
          drop (length (drop k X @ ms) - MAX_HISTORY) (drop k X @ ms)"
    using Cons.IH[OF len] one by (simp add: k_def X_def)
  also have "\<dots> = drop (length (drop k (X @ ms)) - MAX_HISTORY + k) (X @ ms)"
    unfolding app by (simp only: drop_drop)
  also have "\<dots> = drop (length (X @ ms) - MAX_HISTORY) (X @ ms)"
    by (simp only: idx)
  finally show ?case by (simp add: X_def)
qed

text \<open>
  C1. A room starts with an empty history (the constructor), and \<open>addMessage\<close> is the
  only code that changes it. After the messages \<open>ms\<close> have been appended in this order,
  the history is \<open>ms\<close> without its first \<open>length ms - 100\<close> entries: all of \<open>ms\<close> when
  there are at most 100, and exactly the last 100 of them, oldest first, when there are more.
  Its length is the smaller of \<open>length ms\<close> and 100.
\<close>

theorem history_sliding_window:
  "messages (foldl addMessage (new_Room n t) ms) = drop (length ms - MAX_HISTORY) ms
   \<and> length (messages (foldl addMessage (new_Room n t) ms)) = min (length ms) MAX_HISTORY
   \<and> MAX_HISTORY = 100"
proof -
  have "length (messages (new_Room n t)) \<le> MAX_HISTORY"
    by (simp add: new_Room_def)
  from addMessage_window[OF this, of ms]
  have "messages (foldl addMessage (new_Room n t) ms) = drop (length ms - MAX_HISTORY) ms"
    by (simp add: new_Room_def)
  then show ?thesis by (simp add: MAX_HISTORY_def)
qed

section \<open>What each handler does to the state\<close>

lemma step_simps:
  "step s now c Connection =
     (if connected s c then (s, []) else (s\<lparr>sockets := AList.update c [c] (sockets s)\<rparr>, []))"
  "step s now c (Join un ro) = (if connected s c then on_join s now c un ro else (s, []))"
  "step s now c (SendMessage txt) = (if connected s c then on_send_message s now c txt else (s, []))"
  "step s now c Typing = (if connected s c then on_typing s c else (s, []))"
  "step s now c StopTyping = (if connected s c then on_stop_typing s c else (s, []))"
  "step s now c (SwitchRoom r) = (if connected s c then on_switch_room s now c r else (s, []))"
  "step s now c (PrivateMsg to toId txt) =
     (if connected s c then on_private_message s now c to toId txt else (s, []))"
  "step s now c Disconnect =
     (if connected s c then on_disconnect (s\<lparr>sockets := AList.delete c (sockets s)\<rparr>) now c
      else (s, []))"
  by (simp_all add: step_def)

lemma is_member_upd [simp]:
  "is_member (s\<lparr>sockets := sk\<rparr>) k d = is_member s k d"
  "is_member (s\<lparr>users := us\<rparr>) k d = is_member s k d"
  by (simp_all add: is_member_def)

lemma on_join_users:
  "users (fst (on_join s now c un ro)) =
     (users s)(c \<mapsto> \<lparr>uid = c, username = un, room = toLowerCase (default_room ro), joinedAt = now\<rparr>)"
  by (simp add: on_join_def Let_def)

lemma on_join_sockets:
  "sockets (fst (on_join s now c un ro)) = socket_join c (toLowerCase (default_room ro)) (sockets s)"
  by (simp add: on_join_def Let_def)

lemma is_member_on_join:
  "is_member (fst (on_join s now c un ro)) k d \<longleftrightarrow>
     (k = toLowerCase (default_room ro) \<and> d = c) \<or> is_member s k d"
  by (auto simp: is_member_def on_join_def Let_def update_conv' addUser_def set_add_def new_Room_def
           split: option.splits)

lemma leave_room_users: "users (fst (leave_room s now c u k)) = users s"
  by (simp add: leave_room_def Let_def split: option.splits)

lemma leave_room_sockets: "sockets (fst (leave_room s now c u k)) = sockets s"
  by (simp add: leave_room_def Let_def split: option.splits)

lemma is_member_leave_room:
  "is_member (fst (leave_room s now c u k)) k' d \<longleftrightarrow> is_member s k' d \<and> \<not> (k' = k \<and> d = c)"
  by (auto simp: is_member_def leave_room_def Let_def update_conv' removeUser_def set_delete_def
           split: option.splits)

lemma on_send_message_users: "users (fst (on_send_message s now c txt)) = users s"
  by (simp add: on_send_message_def Let_def split: option.splits)

lemma on_send_message_sockets: "sockets (fst (on_send_message s now c txt)) = sockets s"
  by (simp add: on_send_message_def Let_def split: option.splits)

lemma is_member_on_send_message:
  "is_member (fst (on_send_message s now c txt)) k d = is_member s k d"
  by (auto simp: is_member_def on_send_message_def Let_def update_conv' addMessage_def
           split: option.splits)

lemma on_switch_room_users:
  "users s c = Some u \<Longrightarrow>
   users (fst (on_switch_room s now c r)) = (users s)(c \<mapsto> u\<lparr>room := toLowerCase r\<rparr>)"
  by (simp add: on_switch_room_def Let_def case_prod_beta leave_room_users)

lemma is_member_on_switch_room:
  "users s c = Some u \<Longrightarrow>
   is_member (fst (on_switch_room s now c r)) k d \<longleftrightarrow>
     (k = toLowerCase r \<and> d = c) \<or> (is_member s k d \<and> \<not> (k = room u \<and> d = c))"
  apply (simp add: on_switch_room_def Let_def case_prod_beta)
  apply (simp add: is_member_def update_conv' addUser_def set_add_def new_Room_def)
  apply (simp add: leave_room_def Let_def update_conv' removeUser_def set_delete_def split: option.splits)
  apply (auto simp: new_Room_def)
  done

lemma on_disconnect_users: "users (fst (on_disconnect s now c)) = (users s)(c := None)"
  by (auto simp: on_disconnect_def Let_def case_prod_beta leave_room_users split: option.splits)

lemma on_disconnect_sockets: "sockets (fst (on_disconnect s now c)) = sockets s"
  by (auto simp: on_disconnect_def Let_def case_prod_beta leave_room_sockets split: option.splits)

lemma is_member_on_disconnect:
  "is_member (fst (on_disconnect s now c)) k d \<longleftrightarrow>
     is_member s k d \<and> \<not> (d = c \<and> (case users s c of None \<Rightarrow> False | Some u \<Rightarrow> k = room u))"
  by (auto simp: on_disconnect_def Let_def case_prod_beta is_member_leave_room split: option.splits)


lemma is_member_init: "\<not> is_member (init t0) k d"
  by (simp add: is_member_def init_def defaultRooms_def update_conv' new_Room_def)

lemma connected_upd [simp]:
  "connected (s\<lparr>users := us\<rparr>) d = connected s d"
  "connected (s\<lparr>rooms := rs\<rparr>) d = connected s d"
  by (simp_all add: connected_def)

lemma connected_step:
  "connected (fst (step s now c ev)) d \<longleftrightarrow>
     (if d = c then (if ev = Disconnect then False else (ev = Connection \<or> connected s c))
      else connected s d)"
  by (cases ev)
     (auto simp: step_simps connected_def on_join_sockets on_send_message_sockets
        on_typing_def on_stop_typing_def on_private_message_def on_disconnect_sockets
        on_switch_room_def Let_def case_prod_beta leave_room_sockets
        socket_join_def socket_leave_def map_of_map_entry update_conv' delete_conv'
        split: option.splits)

section \<open>What one event and a run do to the state\<close>

lemma not_joined:
  "users s c = None \<Longrightarrow> on_send_message s now c txt = (s, [])"
  "users s c = None \<Longrightarrow> on_typing s c = (s, [])"
  "users s c = None \<Longrightarrow> on_stop_typing s c = (s, [])"
  "users s c = None \<Longrightarrow> on_switch_room s now c r = (s, [])"
  "users s c = None \<Longrightarrow> on_private_message s now c to toId txt = (s, [])"
  "users s c = None \<Longrightarrow> on_disconnect s now c = (s, [])"
  by (simp_all add: on_send_message_def on_typing_def on_stop_typing_def on_switch_room_def
        on_private_message_def on_disconnect_def)

lemma users_step:
  "users (fst (step s now d ev)) =
     (if \<not> connected s d then users s
      else (case ev of
              Join un ro \<Rightarrow> (users s)(d \<mapsto> \<lparr>uid = d, username = un,
                               room = toLowerCase (default_room ro), joinedAt = now\<rparr>)
            | SwitchRoom r \<Rightarrow> (case users s d of None \<Rightarrow> users s
                               | Some u \<Rightarrow> (users s)(d \<mapsto> u\<lparr>room := toLowerCase r\<rparr>))
            | Disconnect \<Rightarrow> (users s)(d := None)
            | _ \<Rightarrow> users s))"
  by (cases ev)
     (auto simp: step_simps on_join_users on_send_message_users on_typing_def on_stop_typing_def
        on_switch_room_users on_private_message_def on_disconnect_users Let_def
        not_joined(4) split: option.splits)

lemma is_member_step:
  "is_member (fst (step s now d ev)) k c \<longleftrightarrow>
     (if \<not> connected s d then is_member s k c
      else (case ev of
              Join un ro \<Rightarrow> (k = toLowerCase (default_room ro) \<and> c = d) \<or> is_member s k c
            | SwitchRoom r \<Rightarrow> (case users s d of None \<Rightarrow> is_member s k c
                               | Some u \<Rightarrow> (k = toLowerCase r \<and> c = d) \<or>
                                           (is_member s k c \<and> \<not> (k = room u \<and> c = d)))
            | Disconnect \<Rightarrow> is_member s k c \<and>
                 \<not> (c = d \<and> (case users s d of None \<Rightarrow> False | Some u \<Rightarrow> k = room u))
            | _ \<Rightarrow> is_member s k c))"
  by (cases ev)
     (auto simp: step_simps is_member_on_join is_member_on_send_message on_typing_def
        on_stop_typing_def is_member_on_switch_room on_private_message_def
        is_member_on_disconnect Let_def not_joined(4) split: option.splits)

lemma users_step_other: "d \<noteq> c \<Longrightarrow> users (fst (step s now d ev)) c = users s c"
  by (simp add: users_step split: event.splits option.splits)

lemma is_member_step_other:
  "d \<noteq> c \<Longrightarrow> is_member (fst (step s now d ev)) k c = is_member s k c"
  by (simp add: is_member_step split: event.splits option.splits)

lemma connected_step_other: "d \<noteq> c \<Longrightarrow> connected (fst (step s now d ev)) c = connected s c"
  by (simp add: connected_step)

lemma fst_run_Cons: "fst (run s ((now, c, ev) # evs)) = fst (run (fst (step s now c ev)) evs)"
  by (simp add: case_prod_beta)

lemma snd_run_Cons:
  "snd (run s ((now, c, ev) # evs)) = snd (step s now c ev) @ snd (run (fst (step s now c ev)) evs)"
  by (simp add: case_prod_beta)

lemma fst_run_append: "fst (run s (xs @ ys)) = fst (run (fst (run s xs)) ys)"
  by (induction xs arbitrary: s) (auto simp: case_prod_beta)

lemma run_others:
  "others c evs \<Longrightarrow>
     users (fst (run s evs)) c = users s c \<and>
     is_member (fst (run s evs)) k c = is_member s k c \<and>
     connected (fst (run s evs)) c = connected s c"
proof (induction evs arbitrary: s)
  case Nil
  then show ?case by simp
next
  case (Cons e evs)
  obtain now d ev where e: "e = (now, d, ev)" by (cases e) auto
  from Cons.prems have d: "d \<noteq> c" and rest: "others c evs" by (simp_all add: others_def e)
  show ?case
    unfolding e fst_run_Cons
    using Cons.IH[OF rest, of "fst (step s now d ev)"]
    by (simp add: users_step_other[OF d] is_member_step_other[OF d] connected_step_other[OF d])
qed

lemma reachable_run: "reachable s \<Longrightarrow> reachable (fst (run s evs))"
proof (induction evs arbitrary: s)
  case Nil
  then show ?case by simp
next
  case (Cons e evs)
  obtain now d ev where e: "e = (now, d, ev)" by (cases e) auto
  show ?case unfolding e fst_run_Cons
    by (rule Cons.IH) (rule reachable_step[OF Cons.prems])
qed

lemma registered_inv:
  "reachable s \<Longrightarrow> users s c = Some u \<Longrightarrow> connected s c \<and> is_member s (room u) c"
proof (induction arbitrary: c u rule: reachable.induct)
  case (reachable_init t0)
  then show ?case by (simp add: init_def)
next
  case (reachable_step s now d ev)
  show ?case
  proof (cases "d = c")
    case False
    with reachable_step show ?thesis
      by (simp add: users_step_other is_member_step_other connected_step_other)
  next
    case True
    with reachable_step.prems reachable_step.IH[of c] show ?thesis
      by (cases ev) (auto simp: users_step is_member_step connected_step split: if_splits option.splits)
  qed
qed

section \<open>Evaluating the examples\<close>

lemma lower_examples:
  "toLowerCase ''general'' = ''general''"
  "toLowerCase ''General'' = ''general''"
  "toLowerCase ''GENERAL'' = ''general''"
  "toLowerCase ''Random'' = ''random''"
  "toLowerCase ''random'' = ''random''"
  "toLowerCase ''Tech'' = ''tech''"
  "toLowerCase ''tech'' = ''tech''"
  "toLowerCase ''Gaming'' = ''gaming''"
  by code_simp+

lemma init_rooms:
  "rooms (init t0) =
     [(''general'', new_Room ''General'' t0), (''random'', new_Room ''Random'' t0),
      (''tech'', new_Room ''Tech'' t0), (''gaming'', new_Room ''Gaming'' t0)]"
  by (simp add: init_def defaultRooms_def lower_examples)

lemma init_users_sockets: "users (init t0) = Map.empty" "sockets (init t0) = []"
  by (simp_all add: init_def)

lemmas eval_defs =
  step_def on_join_def on_send_message_def on_typing_def on_stop_typing_def leave_room_def
  on_switch_room_def on_private_message_def on_disconnect_def connected_def socket_join_def
  socket_leave_def io_to_def socket_to_def set_add_def set_delete_def addUser_def removeUser_def
  addMessage_def new_Room_def getUserCount_def getInfo_def usersUpdate_def default_room_def
  MAX_HISTORY_def is_member_def received_def Let_def init_rooms init_users_sockets lower_examples

lemmas example_defs =
  connected_a_def joined_a_def joined_a_connected_b_def joined_a_b_def joined_a_gone_b_def
  joined_twice_a_def

lemma reachable_examples:
  "reachable connected_a" "reachable joined_a" "reachable joined_a_connected_b"
  "reachable joined_a_b" "reachable joined_a_gone_b" "reachable joined_twice_a"
  unfolding example_defs by (rule reachable_run[OF reachable_init])+

section \<open>The histories of the running server\<close>

text \<open>
  In the server a history changes only through \<open>addMessage\<close>, called by
  \<open>send-message\<close> on the sender's current room, so no room of a reachable state holds
  more than \<open>MAX_HISTORY\<close> messages.
\<close>

lemma messages_kept:
  "messages (addUser R c) = messages R" "messages (removeUser R c) = messages R"
  "messages (new_Room n t) = []"
  by (simp_all add: addUser_def removeUser_def new_Room_def)

lemma messages_step:
  "map_of (rooms (fst (step s now d ev))) k = Some R' \<Longrightarrow>
     (\<exists>R. map_of (rooms s) k = Some R \<and>
          (messages R' = messages R \<or> (\<exists>m. messages R' = messages (addMessage R m))))
     \<or> messages R' = []"
  by (cases ev)
     (auto simp: step_simps on_join_def on_send_message_def on_typing_def on_stop_typing_def
        on_switch_room_def leave_room_def on_private_message_def on_disconnect_def Let_def
        update_conv' messages_kept case_prod_beta
        split: option.splits if_splits)

lemma addMessage_bounded:
  "length (messages R) \<le> MAX_HISTORY \<Longrightarrow> length (messages (addMessage R m)) \<le> MAX_HISTORY"
  by (simp add: addMessage_def Let_def)

lemma history_bounded:
  "reachable s \<Longrightarrow> map_of (rooms s) k = Some R \<Longrightarrow> length (messages R) \<le> MAX_HISTORY"
proof (induction arbitrary: k R rule: reachable.induct)
  case (reachable_init t0)
  then show ?case
    by (auto simp: init_rooms new_Room_def split: if_splits)
next
  case (reachable_step s now c ev)
  from messages_step[OF reachable_step.prems]
  consider R0 where "map_of (rooms s) k = Some R0" and "messages R = messages R0"
    | R0 m where "map_of (rooms s) k = Some R0" and "messages R = messages (addMessage R0 m)"
    | "messages R = []"
    by blast
  then show ?case
  proof cases
    case 1
    from reachable_step.IH[OF 1(1)] 1(2) show ?thesis by simp
  next
    case 2
    from addMessage_bounded[OF reachable_step.IH[OF 2(1)], of m] 2(2) show ?thesis by simp
  next
    case 3
    then show ?thesis by simp
  qed
qed

lemma send_message_appends:
  "connected s c \<Longrightarrow> users s c = Some u \<Longrightarrow> map_of (rooms s) (room u) = Some R \<Longrightarrow>
   map_of (rooms (fst (step s now c (SendMessage txt)))) (room u) =
     Some (addMessage R \<lparr>msg_id = now, msg_user = username u, msg_userId = c,
                           msg_text = txt, msg_timestamp = now\<rparr>)"
  by (simp add: step_simps on_send_message_def Let_def update_conv')

section \<open>Membership and the registry\<close>

text \<open>
  With \<open>join\<close> raised only by sockets that have no entry in \<open>users\<close>, a socket in the
  \<open>users\<close> set of a room is registered with that room as its current room, and so is in
  no second room.
\<close>

lemma membership_consistent_join_once:
  "reachable_join_once s \<Longrightarrow> is_member s k c \<Longrightarrow> \<exists>u. users s c = Some u \<and> room u = k"
proof (induction arbitrary: k c rule: reachable_join_once.induct)
  case (join_once_init t0)
  then show ?case by (simp add: is_member_init)
next
  case (join_once_step s ev d now)
  show ?case
  proof (cases "d = c")
    case False
    with join_once_step.prems join_once_step.IH[of k c] show ?thesis
      by (simp add: users_step_other is_member_step_other)
  next
    case True
    with join_once_step.prems join_once_step.hyps(2) join_once_step.IH[of _ c] show ?thesis
      by (cases ev) (auto simp: users_step is_member_step split: if_splits option.splits)
  qed
qed

text \<open>
  C2. The \<open>join\<close> handler does not look at an earlier entry of the socket: it overwrites
  the \<open>users\<close> entry and adds the socket to the new room, and nothing takes the socket out
  of the room it joined before (as \<open>switch-room\<close> and \<open>disconnect\<close> do). After socket
  \<open>a\<close> has joined the default room and then Random, it is in the \<open>users\<close> sets of both
  \<open>general\<close> and \<open>random\<close>, and its current room is \<open>random\<close>.
\<close>

theorem double_join_stale_member:
  "is_member joined_twice_a ''general'' ''a''
   \<and> is_member joined_twice_a ''random'' ''a''
   \<and> map_option room (users joined_twice_a ''a'') = Some ''random''"
  by (simp add: joined_twice_a_def eval_defs)

text \<open>
  C6. The claim fails where socket \<open>a\<close>, registered as alice in \<open>general\<close>, raises
  \<open>join\<close> again as bob for Random: its entry becomes bob in \<open>random\<close> with the new
  join time, and what the socket receives is the welcome, the history, the user list and the
  room list of an ordinary join.
\<close>

theorem second_join_replaces_entry:
  "users joined_a ''a'' = Some \<lparr>uid = ''a'', username = ''alice'', room = ''general'', joinedAt = 2\<rparr>
   \<and> users (fst (step joined_a 3 ''a'' (Join ''bob'' (Some ''Random'')))) ''a''
       = Some \<lparr>uid = ''a'', username = ''bob'', room = ''random'', joinedAt = 3\<rparr>
   \<and> received ''a'' (snd (step joined_a 3 ''a'' (Join ''bob'' (Some ''Random''))))
       = [SystemMessage ''Welcome to Random, bob!'' 3,
          RoomHistory [],
          UsersUpdate [Some \<lparr>uid = ''a'', username = ''bob'', room = ''random'', joinedAt = 3\<rparr>] 1,
          RoomsList
            [\<lparr>info_name = ''General'', info_userCount = 1, info_users = [Some ''bob''],
               info_createdAt = 0\<rparr>,
             \<lparr>info_name = ''Random'', info_userCount = 1, info_users = [Some ''bob''],
               info_createdAt = 0\<rparr>,
             \<lparr>info_name = ''Tech'', info_userCount = 0, info_users = [], info_createdAt = 0\<rparr>,
             \<lparr>info_name = ''Gaming'', info_userCount = 0, info_users = [],
               info_createdAt = 0\<rparr>]]"
  by (simp add: joined_a_def eval_defs)

text \<open>
  C6, as the code has it. A \<open>join\<close> from a socket that is already registered does not
  fail: the entry of the socket is replaced by one with the new user name, the lower-cased
  room name (\<open>general\<close> when the payload has none) and the new join time, and the first
  event the socket receives is the welcome message.
\<close>

theorem rejoin_overwrites:
  assumes "reachable s" and "users s c = Some u"
  shows "users (fst (step s now c (Join un ro))) c =
           Some \<lparr>uid = c, username = un, room = toLowerCase (default_room ro), joinedAt = now\<rparr>
       \<and> take (Suc 0) (received c (snd (step s now c (Join un ro)))) =
           [SystemMessage (''Welcome to '' @ default_room ro @ '', '' @ un @ ''!'') now]"
proof -
  have "connected s c" using registered_inv[OF assms] by simp
  then show ?thesis
    by (simp add: step_simps on_join_users) (simp add: on_join_def Let_def received_def)
qed

theorem rejoin_overwrites_witness:
  "users joined_a ''a'' = Some \<lparr>uid = ''a'', username = ''alice'', room = ''general'', joinedAt = 2\<rparr>
   \<and> users (fst (step joined_a 3 ''a'' (Join ''bob'' (Some ''Random'')))) ''a''
       = Some \<lparr>uid = ''a'', username = ''bob'', room = ''random'', joinedAt = 3\<rparr>
   \<and> take (Suc 0) (received ''a'' (snd (step joined_a 3 ''a'' (Join ''bob'' (Some ''Random'')))))
       = [SystemMessage ''Welcome to Random, bob!'' 3]"
proof -
  have u: "users joined_a ''a'' =
             Some \<lparr>uid = ''a'', username = ''alice'', room = ''general'', joinedAt = 2\<rparr>"
    by (simp add: joined_a_def eval_defs)
  from rejoin_overwrites[OF reachable_examples(2) u, of 3 "''bob''" "Some ''Random''"]
  show ?thesis using u by (simp add: default_room_def lower_examples)
qed

text \<open>
  C7. A connected socket \<open>c\<close> joins room A (or the default room), later switches to room
  B and later disconnects, while other sockets raise any events before, between and after.
  In the final state \<open>c\<close> is in the \<open>users\<close> set of neither room and has no entry in
  \<open>users\<close>.
\<close>

theorem join_switch_disconnect_no_residue:
  assumes "connected s c" and "others c evs1" and "others c evs2" and "others c evs3"
  shows "let s' = fst (run s ((t1, c, Join un roomA) # evs1 @ (t2, c, SwitchRoom roomB) # evs2
                               @ (t3, c, Disconnect) # evs3))
         in \<not> is_member s' (toLowerCase (default_room roomA)) c
          \<and> \<not> is_member s' (toLowerCase roomB) c
          \<and> users s' c = None"
proof -
  define s1 where "s1 = fst (step s t1 c (Join un roomA))"
  define s2 where "s2 = fst (run s1 evs1)"
  define s3 where "s3 = fst (step s2 t2 c (SwitchRoom roomB))"
  define s4 where "s4 = fst (run s3 evs2)"
  define s5 where "s5 = fst (step s4 t3 c Disconnect)"
  define s6 where "s6 = fst (run s5 evs3)"
  let ?A = "toLowerCase (default_room roomA)" and ?B = "toLowerCase roomB"
  have final: "fst (run s ((t1, c, Join un roomA) # evs1 @ (t2, c, SwitchRoom roomB) # evs2
                               @ (t3, c, Disconnect) # evs3)) = s6"
    by (simp add: fst_run_append case_prod_beta s1_def s2_def s3_def s4_def s5_def s6_def)
  have u1: "users s1 c = Some \<lparr>uid = c, username = un, room = ?A, joinedAt = t1\<rparr>"
    and c1: "connected s1 c"
    using assms(1) by (simp_all add: s1_def users_step connected_step)
  have u2: "users s2 c = Some \<lparr>uid = c, username = un, room = ?A, joinedAt = t1\<rparr>"
    and c2: "connected s2 c"
    using run_others[OF assms(2), of s1] u1 c1 by (simp_all add: s2_def)
  have u3: "users s3 c = Some \<lparr>uid = c, username = un, room = ?B, joinedAt = t1\<rparr>"
    and c3: "connected s3 c"
    and m3: "\<not> is_member s3 ?A c \<or> ?A = ?B"
    using u2 c2 by (auto simp: s3_def users_step connected_step is_member_step)
  have u4: "users s4 c = Some \<lparr>uid = c, username = un, room = ?B, joinedAt = t1\<rparr>"
    and c4: "connected s4 c"
    and m4: "\<not> is_member s4 ?A c \<or> ?A = ?B"
    using run_others[OF assms(3), of s3] u3 c3 m3 by (simp_all add: s4_def)
  have u5: "users s5 c = None"
    and m5: "\<not> is_member s5 ?A c" "\<not> is_member s5 ?B c"
    using u4 c4 m4 by (auto simp: s5_def users_step is_member_step)
  have "users s6 c = None" "\<not> is_member s6 ?A c" "\<not> is_member s6 ?B c"
    using run_others[OF assms(4), of s5] u5 m5 by (simp_all add: s6_def)
  then show ?thesis unfolding final by (simp add: Let_def)
qed

theorem join_switch_disconnect_no_residue_witness:
  "connected connected_a ''a''
   \<and> \<not> is_member (fst (run connected_a [(2, ''a'', Join ''alice'' (Some ''Tech'')),
           (3, ''b'', Connection), (4, ''b'', Join ''bob'' (Some ''tech'')),
           (5, ''a'', SwitchRoom ''Random''), (6, ''b'', SendMessage ''hi''),
           (7, ''a'', Disconnect)])) ''tech'' ''a''
   \<and> \<not> is_member (fst (run connected_a [(2, ''a'', Join ''alice'' (Some ''Tech'')),
           (3, ''b'', Connection), (4, ''b'', Join ''bob'' (Some ''tech'')),
           (5, ''a'', SwitchRoom ''Random''), (6, ''b'', SendMessage ''hi''),
           (7, ''a'', Disconnect)])) ''random'' ''a''
   \<and> users (fst (run connected_a [(2, ''a'', Join ''alice'' (Some ''Tech'')),
           (3, ''b'', Connection), (4, ''b'', Join ''bob'' (Some ''tech'')),
           (5, ''a'', SwitchRoom ''Random''), (6, ''b'', SendMessage ''hi''),
           (7, ''a'', Disconnect)])) ''a'' = None"
proof -
  have c: "connected connected_a ''a''"
    by (simp add: connected_a_def eval_defs)
  have o1: "others ''a'' [(3, ''b'', Connection), (4, ''b'', Join ''bob'' (Some ''tech''))]"
    and o2: "others ''a'' [(6, ''b'', SendMessage ''hi'')]"
    and o3: "others ''a'' []"
    by (simp_all add: others_def)
  from join_switch_disconnect_no_residue[OF c o1 o2 o3, of 2 "''alice''" "Some ''Tech''" 5 "''Random''" 7]
  show ?thesis using c
    by (simp add: Let_def default_room_def lower_examples)
qed

section \<open>Events of sockets that have not joined\<close>

text \<open>
  C4. The claim fails where socket \<open>a\<close> has connected, has not joined and raises
  \<open>send-message\<close>: it receives nothing, so no error event either.
\<close>

theorem no_error_event_before_join:
  "received ''a'' (snd (step connected_a 2 ''a'' (SendMessage ''hi''))) = []"
  by (simp add: connected_a_def eval_defs)

text \<open>
  C4, as the code has it. When the socket has no entry in \<open>users\<close>, the handlers of
  \<open>send-message\<close>, \<open>typing\<close>, \<open>stop-typing\<close>, \<open>switch-room\<close> and
  \<open>private-message\<close> return at once: the state stays as it is and nothing is emitted to
  anyone, the sender included.
\<close>

theorem events_before_join_ignored:
  "users s c = None \<Longrightarrow>
     step s now c (SendMessage txt) = (s, []) \<and>
     step s now c Typing = (s, []) \<and>
     step s now c StopTyping = (s, []) \<and>
     step s now c (SwitchRoom r) = (s, []) \<and>
     step s now c (PrivateMsg to toId txt) = (s, [])"
  by (simp add: step_simps not_joined)

theorem events_before_join_ignored_witness:
  "users connected_a ''a'' = None
   \<and> step connected_a 2 ''a'' (SendMessage ''hi'') = (connected_a, [])
   \<and> step connected_a 2 ''a'' Typing = (connected_a, [])
   \<and> step connected_a 2 ''a'' StopTyping = (connected_a, [])
   \<and> step connected_a 2 ''a'' (SwitchRoom ''Tech'') = (connected_a, [])
   \<and> step connected_a 2 ''a'' (PrivateMsg ''bob'' ''b'' ''hi'') = (connected_a, [])"
proof -
  have h: "users connected_a ''a'' = None"
    by (simp add: connected_a_def eval_defs)
  from events_before_join_ignored[OF h, of 2 "''hi''" "''Tech''" "''bob''" "''b''"] h
  show ?thesis by simp
qed

section \<open>Typing notifications\<close>

text \<open>
  The server sets no timer: whatever it emits, it emits in a handler run. So what the other
  sockets observe after an event, when no further event arrives, is what that handler run
  emitted.

  C3. The claim fails where \<open>a\<close> and \<open>b\<close> are in the default room and \<open>a\<close> raises
  \<open>typing\<close>: \<open>b\<close> receives \<open>user-typing\<close> and nothing else, and the state, which has
  no typing record, is as before.
\<close>

theorem typing_no_timeout:
  "received ''b'' (snd (step joined_a_b 3 ''a'' Typing)) = [UserTyping ''alice'' ''a'']
   \<and> fst (step joined_a_b 3 ''a'' Typing) = joined_a_b"
  by (simp add: joined_a_b_def eval_defs)

lemma stop_typing_only_on_request:
  "ev \<noteq> StopTyping \<Longrightarrow> (rs, UserStopTyping x) \<notin> set (snd (step s now d ev))"
  by (cases ev)
     (auto simp: step_simps on_join_def on_send_message_def on_typing_def on_switch_room_def
        leave_room_def on_private_message_def on_disconnect_def Let_def usersUpdate_def
        case_prod_beta split: option.splits)

text \<open>
  C3, as the code has it. A \<open>typing\<close> event of a registered socket sends one
  \<open>user-typing\<close> event to the other sockets of its room and leaves the state as it is;
  a \<open>stop-typing\<close> event sends them one \<open>user-stop-typing\<close> event; and no event of any
  socket other than \<open>stop-typing\<close> makes the server emit \<open>user-stop-typing\<close>.
\<close>

theorem typing_events:
  assumes "reachable s" and "users s c = Some u"
  shows "step s now c Typing = (s, [(socket_to s c (room u), UserTyping (username u) c)])
       \<and> step s now' c StopTyping = (s, [(socket_to s c (room u), UserStopTyping c)])
       \<and> (ev \<noteq> StopTyping \<longrightarrow> (rs, UserStopTyping x) \<notin> set (snd (step s2 now2 d ev)))"
proof -
  have "connected s c" using registered_inv[OF assms] by simp
  then show ?thesis
    using assms(2) stop_typing_only_on_request[of ev rs x s2 now2 d]
    by (simp add: step_simps on_typing_def on_stop_typing_def)
qed

theorem typing_events_witness:
  "users joined_a_b ''a'' = Some \<lparr>uid = ''a'', username = ''alice'', room = ''general'', joinedAt = 2\<rparr>
   \<and> step joined_a_b 3 ''a'' Typing = (joined_a_b, [([''b''], UserTyping ''alice'' ''a'')])
   \<and> step joined_a_b 4 ''a'' StopTyping = (joined_a_b, [([''b''], UserStopTyping ''a'')])
   \<and> ([''b''], UserStopTyping ''a'') \<notin> set (snd (step joined_a_b 3 ''a'' Typing))"
proof -
  have u: "users joined_a_b ''a'' =
             Some \<lparr>uid = ''a'', username = ''alice'', room = ''general'', joinedAt = 2\<rparr>"
    by (simp add: joined_a_b_def eval_defs)
  have st: "socket_to joined_a_b ''a'' ''general'' = [''b'']"
    by (simp add: joined_a_b_def eval_defs)
  from typing_events[OF reachable_examples(4) u, of 3 4 Typing "[''b'']" "''a''" joined_a_b 3 "''a''"]
  show ?thesis using u st by simp
qed

section \<open>Private messages\<close>

text \<open>
  C5. The claim fails where \<open>a\<close> has joined, \<open>b\<close> has connected but never joined (so it
  has no entry in \<open>users\<close>), and \<open>a\<close> sends a private message with target id \<open>b\<close>:
  \<open>a\<close> receives the message itself under the event name \<open>private-message\<close>, not an
  error, and \<open>b\<close> receives the message too.
\<close>

theorem private_message_to_unregistered:
  "users joined_a_connected_b ''b'' = None
   \<and> received ''a'' (snd (step joined_a_connected_b 3 ''a'' (PrivateMsg ''bob'' ''b'' ''hi'')))
       = [PrivateMessage \<lparr>pm_id = 3, pm_from = ''alice'', pm_fromId = ''a'', pm_to = ''bob'',
            pm_text = ''hi'', pm_timestamp = 3\<rparr>]
   \<and> received ''b'' (snd (step joined_a_connected_b 3 ''a'' (PrivateMsg ''bob'' ''b'' ''hi'')))
       = [PrivateMessage \<lparr>pm_id = 3, pm_from = ''alice'', pm_fromId = ''a'', pm_to = ''bob'',
            pm_text = ''hi'', pm_timestamp = 3\<rparr>]"
  by (simp add: joined_a_connected_b_def eval_defs)

text \<open>
  C5, as the code has it. A registered socket sends a private message to a target id that
  has no entry in \<open>users\<close>. The handler never looks the target up: the state stays as it
  is, the message is emitted to every socket other than the sender in the adapter room named
  by the target id, and then back to the sender, under the event name \<open>private-message\<close>
  both times. So the sender receives its own message and no error; any other socket receives
  the message when it is in the adapter room named by the target id and nothing otherwise;
  and when no socket is in that room (as when the target has disconnected), no socket other
  than the sender receives anything.
\<close>

theorem private_message_echo:
  assumes "reachable s" and "users s c = Some u" and "users s toId = None"
  shows "step s now c (PrivateMsg to toId txt) =
           (s, [(socket_to s c toId,
                 PrivateMessage \<lparr>pm_id = now, pm_from = username u, pm_fromId = c, pm_to = to,
                   pm_text = txt, pm_timestamp = now\<rparr>),
                ([c],
                 PrivateMessage \<lparr>pm_id = now, pm_from = username u, pm_fromId = c, pm_to = to,
                   pm_text = txt, pm_timestamp = now\<rparr>)])
       \<and> received d (snd (step s now c (PrivateMsg to toId txt))) =
           (if d = c \<or> d \<in> set (io_to s toId)
            then [PrivateMessage \<lparr>pm_id = now, pm_from = username u, pm_fromId = c, pm_to = to,
                    pm_text = txt, pm_timestamp = now\<rparr>]
            else [])
       \<and> (io_to s toId = [] \<longrightarrow>
            received d (snd (step s now c (PrivateMsg to toId txt))) =
              (if d = c
               then [PrivateMessage \<lparr>pm_id = now, pm_from = username u, pm_fromId = c,
                       pm_to = to, pm_text = txt, pm_timestamp = now\<rparr>]
               else []))"
proof -
  have conn: "connected s c" using registered_inv[OF assms(1,2)] by simp
  have whole: "step s now c (PrivateMsg to toId txt) =
           (s, [(socket_to s c toId,
                 PrivateMessage \<lparr>pm_id = now, pm_from = username u, pm_fromId = c, pm_to = to,
                   pm_text = txt, pm_timestamp = now\<rparr>),
                ([c],
                 PrivateMessage \<lparr>pm_id = now, pm_from = username u, pm_fromId = c, pm_to = to,
                   pm_text = txt, pm_timestamp = now\<rparr>)])"
    using conn assms(2) by (simp add: step_simps on_private_message_def Let_def)
  have recv: "received d (snd (step s now c (PrivateMsg to toId txt))) =
           (if d = c \<or> d \<in> set (io_to s toId)
            then [PrivateMessage \<lparr>pm_id = now, pm_from = username u, pm_fromId = c, pm_to = to,
                    pm_text = txt, pm_timestamp = now\<rparr>]
            else [])"
    unfolding whole by (auto simp: received_def socket_to_def)
  from whole recv show ?thesis by simp
qed

theorem private_message_echo_witness:
  "users joined_a_connected_b ''a'' =
     Some \<lparr>uid = ''a'', username = ''alice'', room = ''general'', joinedAt = 2\<rparr>
   \<and> users joined_a_connected_b ''b'' = None
   \<and> io_to joined_a_connected_b ''b'' = [''b'']
   \<and> step joined_a_connected_b 3 ''a'' (PrivateMsg ''bob'' ''b'' ''hi'') =
       (joined_a_connected_b,
        [([''b''], PrivateMessage \<lparr>pm_id = 3, pm_from = ''alice'', pm_fromId = ''a'',
                     pm_to = ''bob'', pm_text = ''hi'', pm_timestamp = 3\<rparr>),
         ([''a''], PrivateMessage \<lparr>pm_id = 3, pm_from = ''alice'', pm_fromId = ''a'',
                     pm_to = ''bob'', pm_text = ''hi'', pm_timestamp = 3\<rparr>)])
   \<and> received ''b'' (snd (step joined_a_connected_b 3 ''a'' (PrivateMsg ''bob'' ''b'' ''hi''))) =
       [PrivateMessage \<lparr>pm_id = 3, pm_from = ''alice'', pm_fromId = ''a'', pm_to = ''bob'',
          pm_text = ''hi'', pm_timestamp = 3\<rparr>]
   \<and> users joined_a_gone_b ''a'' =
       Some \<lparr>uid = ''a'', username = ''alice'', room = ''general'', joinedAt = 2\<rparr>
   \<and> users joined_a_gone_b ''b'' = None
   \<and> io_to joined_a_gone_b ''b'' = []
   \<and> fst (step joined_a_gone_b 4 ''a'' (PrivateMsg ''bob'' ''b'' ''hi'')) = joined_a_gone_b
   \<and> received ''a'' (snd (step joined_a_gone_b 4 ''a'' (PrivateMsg ''bob'' ''b'' ''hi''))) =
       [PrivateMessage \<lparr>pm_id = 4, pm_from = ''alice'', pm_fromId = ''a'', pm_to = ''bob'',
          pm_text = ''hi'', pm_timestamp = 4\<rparr>]
   \<and> received ''b'' (snd (step joined_a_gone_b 4 ''a'' (PrivateMsg ''bob'' ''b'' ''hi''))) = []"
proof -
  have u1: "users joined_a_connected_b ''a'' =
              Some \<lparr>uid = ''a'', username = ''alice'', room = ''general'', joinedAt = 2\<rparr>"
    and t1: "users joined_a_connected_b ''b'' = None"
    and io1: "io_to joined_a_connected_b ''b'' = [''b'']"
    and st1: "socket_to joined_a_connected_b ''a'' ''b'' = [''b'']"
    by (simp_all add: joined_a_connected_b_def eval_defs)
  have u2: "users joined_a_gone_b ''a'' =
              Some \<lparr>uid = ''a'', username = ''alice'', room = ''general'', joinedAt = 2\<rparr>"
    and t2: "users joined_a_gone_b ''b'' = None"
    and io2: "io_to joined_a_gone_b ''b'' = []"
    by (simp_all add: joined_a_gone_b_def eval_defs)
  note b1 = private_message_echo[OF reachable_examples(3) u1 t1, of 3 "''bob''" "''hi''" "''b''"]
  note a2 = private_message_echo[OF reachable_examples(5) u2 t2, of 4 "''bob''" "''hi''" "''a''"]
  note b2 = private_message_echo[OF reachable_examples(5) u2 t2, of 4 "''bob''" "''hi''" "''b''"]
  have w1: "step joined_a_connected_b 3 ''a'' (PrivateMsg ''bob'' ''b'' ''hi'') =
       (joined_a_connected_b,
        [([''b''], PrivateMessage \<lparr>pm_id = 3, pm_from = ''alice'', pm_fromId = ''a'',
                     pm_to = ''bob'', pm_text = ''hi'', pm_timestamp = 3\<rparr>),
         ([''a''], PrivateMessage \<lparr>pm_id = 3, pm_from = ''alice'', pm_fromId = ''a'',
                     pm_to = ''bob'', pm_text = ''hi'', pm_timestamp = 3\<rparr>)])"
    using b1[THEN conjunct1] st1 by simp
  have r1: "received ''b''
              (snd (step joined_a_connected_b 3 ''a'' (PrivateMsg ''bob'' ''b'' ''hi''))) =
       [PrivateMessage \<lparr>pm_id = 3, pm_from = ''alice'', pm_fromId = ''a'', pm_to = ''bob'',
          pm_text = ''hi'', pm_timestamp = 3\<rparr>]"
    using b1[THEN conjunct2, THEN conjunct1] io1 by simp
  have f2: "fst (step joined_a_gone_b 4 ''a'' (PrivateMsg ''bob'' ''b'' ''hi'')) = joined_a_gone_b"
    using a2[THEN conjunct1] by simp
  have r2a: "received ''a''
               (snd (step joined_a_gone_b 4 ''a'' (PrivateMsg ''bob'' ''b'' ''hi''))) =
       [PrivateMessage \<lparr>pm_id = 4, pm_from = ''alice'', pm_fromId = ''a'', pm_to = ''bob'',
          pm_text = ''hi'', pm_timestamp = 4\<rparr>]"
    using a2[THEN conjunct2, THEN conjunct1] by simp
  have r2b: "received ''b''
               (snd (step joined_a_gone_b 4 ''a'' (PrivateMsg ''bob'' ''b'' ''hi''))) = []"
    using b2[THEN conjunct2, THEN conjunct2] io2 by simp
  from u1 t1 io1 w1 r1 u2 t2 io2 f2 r2a r2b show ?thesis by (intro conjI)
qed

section \<open>Message ids\<close>

lemma emitted_ids_append: "emitted_ids (xs @ ys) = emitted_ids xs @ emitted_ids ys"
  by (induction xs rule: emitted_ids.induct) simp_all

lemma emitted_ids_leave_room: "emitted_ids (snd (leave_room s now c u k)) = []"
  by (simp add: leave_room_def Let_def usersUpdate_def split: option.splits)

lemma emitted_ids_step: "set (emitted_ids (snd (step s now c ev))) \<subseteq> {now}"
  by (cases ev)
     (auto simp: step_simps on_join_def on_send_message_def on_typing_def on_stop_typing_def
        on_switch_room_def on_private_message_def on_disconnect_def Let_def usersUpdate_def
        case_prod_beta emitted_ids_append emitted_ids_leave_room split: option.splits)

lemma emitted_ids_run: "set (emitted_ids (snd (run s evs))) \<subseteq> fst ` set evs"
proof (induction evs arbitrary: s)
  case Nil
  then show ?case by simp
next
  case (Cons e evs)
  obtain now c ev where e: "e = (now, c, ev)" by (cases e) auto
  show ?case
    unfolding e snd_run_Cons emitted_ids_append
    using emitted_ids_step[of s now c ev] Cons.IH[of "fst (step s now c ev)"]
    by auto
qed

lemma sorted_constant: "set xs \<subseteq> {a} \<Longrightarrow> sorted xs"
  by (induction xs) auto

lemma emitted_ids_sorted: "sorted (map fst evs) \<Longrightarrow> sorted (emitted_ids (snd (run s evs)))"
proof (induction evs arbitrary: s)
  case Nil
  then show ?case by simp
next
  case (Cons e evs)
  obtain now c ev where e: "e = (now, c, ev)" by (cases e) auto
  from Cons.prems have later: "\<forall>t \<in> fst ` set evs. now \<le> t" and rest: "sorted (map fst evs)"
    by (auto simp: e)
  have "\<forall>x \<in> set (emitted_ids (snd (step s now c ev))).
          \<forall>y \<in> set (emitted_ids (snd (run (fst (step s now c ev)) evs))). x \<le> y"
    using emitted_ids_step[of s now c ev] emitted_ids_run[of "fst (step s now c ev)" evs] later
    by auto
  then show ?case
    unfolding e snd_run_Cons emitted_ids_append
    using sorted_constant[OF emitted_ids_step[of s now c ev]] Cons.IH[OF rest]
    by (simp add: sorted_append)
qed

text \<open>
  C8. The claim fails where \<open>a\<close>, in the default room, sends two messages that the server
  handles at the same clock value 5: both message objects carry the id 5.
\<close>

theorem same_millisecond_same_id:
  "snd (run joined_a [(5, ''a'', SendMessage ''x''), (5, ''a'', SendMessage ''y'')]) =
     [([''a''], UserMessage \<lparr>msg_id = 5, msg_user = ''alice'', msg_userId = ''a'',
                  msg_text = ''x'', msg_timestamp = 5\<rparr>),
      ([''a''], UserMessage \<lparr>msg_id = 5, msg_user = ''alice'', msg_userId = ''a'',
                  msg_text = ''y'', msg_timestamp = 5\<rparr>)]"
  by (simp add: joined_a_def eval_defs)

text \<open>
  C8, as the code has it. The id of a message is the clock value at which its handler runs
  (\<open>Date.now()\<close>): one such id is emitted by \<open>send-message\<close>, and \<open>private-message\<close>
  emits its one message twice, to the target and back to the sender. So when the clock values
  of the events of a run do not decrease, the ids of the messages it emits do not decrease
  either, and every id is the clock value of some event of the run.
\<close>

theorem message_ids_follow_clock:
  assumes "sorted (map fst evs)" and "reachable s'" and "users s' c = Some u"
  shows "sorted (emitted_ids (snd (run s evs)))
       \<and> set (emitted_ids (snd (run s evs))) \<subseteq> fst ` set evs
       \<and> emitted_ids (snd (step s' now c (SendMessage txt))) = [now]
       \<and> emitted_ids (snd (step s' now c (PrivateMsg to toId txt))) = [now, now]"
proof -
  have "connected s' c" using registered_inv[OF assms(2,3)] by simp
  then have "emitted_ids (snd (step s' now c (SendMessage txt))) = [now]"
    and "emitted_ids (snd (step s' now c (PrivateMsg to toId txt))) = [now, now]"
    using assms(3)
    by (simp_all add: step_simps on_send_message_def on_private_message_def Let_def)
  then show ?thesis
    using emitted_ids_sorted[OF assms(1)] emitted_ids_run by simp
qed

theorem message_ids_follow_clock_witness:
  "sorted (map fst [(5::nat, ''a'', SendMessage ''x''), (5, ''a'', SendMessage ''y''),
                    (6, ''a'', PrivateMsg ''bob'' ''b'' ''hi'')])
   \<and> users joined_a ''a'' = Some \<lparr>uid = ''a'', username = ''alice'', room = ''general'', joinedAt = 2\<rparr>
   \<and> emitted_ids (snd (run joined_a [(5, ''a'', SendMessage ''x''), (5, ''a'', SendMessage ''y''),
                    (6, ''a'', PrivateMsg ''bob'' ''b'' ''hi'')])) = [5, 5, 6, 6]
   \<and> sorted (emitted_ids (snd (run joined_a [(5, ''a'', SendMessage ''x''),
                    (5, ''a'', SendMessage ''y''), (6, ''a'', PrivateMsg ''bob'' ''b'' ''hi'')])))
   \<and> emitted_ids (snd (step joined_a 5 ''a'' (SendMessage ''x''))) = [5]"
proof -
  have so: "sorted (map fst [(5::nat, ''a'', SendMessage ''x''), (5, ''a'', SendMessage ''y''),
                    (6, ''a'', PrivateMsg ''bob'' ''b'' ''hi'')])"
    by simp
  have u: "users joined_a ''a'' =
             Some \<lparr>uid = ''a'', username = ''alice'', room = ''general'', joinedAt = 2\<rparr>"
    by (simp add: joined_a_def eval_defs)
  have ids: "emitted_ids (snd (run joined_a [(5, ''a'', SendMessage ''x''),
               (5, ''a'', SendMessage ''y''), (6, ''a'', PrivateMsg ''bob'' ''b'' ''hi'')]))
             = [5, 5, 6, 6]"
    by (simp add: joined_a_def eval_defs)
  from message_ids_follow_clock[OF so reachable_examples(2) u, of joined_a 5 "''x''"]
  show ?thesis using so u ids by simp
qed

section \<open>Room keys\<close>

lemma room_name_kept:
  "name (addUser R c) = name R" "name (removeUser R c) = name R" "name (addMessage R m) = name R"
  "name (new_Room n t) = n"
  by (simp_all add: addUser_def removeUser_def addMessage_def new_Room_def Let_def)

lemma rooms_step_name:
  "map_of (rooms (fst (step s now d ev))) k = Some R' \<Longrightarrow>
     (\<exists>R. map_of (rooms s) k = Some R \<and> name R = name R') \<or> k = toLowerCase (name R')"
  by (cases ev)
     (auto simp: step_simps on_join_def on_send_message_def on_typing_def on_stop_typing_def
        on_switch_room_def leave_room_def on_private_message_def on_disconnect_def Let_def
        update_conv' room_name_kept case_prod_beta
        split: option.splits if_splits)

lemma room_keys_lower:
  "reachable s \<Longrightarrow> map_of (rooms s) k = Some R \<Longrightarrow> k = toLowerCase (name R)"
proof (induction arbitrary: k R rule: reachable.induct)
  case (reachable_init t0)
  then show ?case
    by (auto simp: init_rooms new_Room_def lower_examples split: if_splits)
next
  case (reachable_step s now c ev)
  from rooms_step_name[OF reachable_step.prems]
  consider R0 where "map_of (rooms s) k = Some R0" and "name R0 = name R"
    | "k = toLowerCase (name R)"
    by blast
  then show ?case
  proof cases
    case 1
    from reachable_step.IH[OF 1(1)] 1(2) show ?thesis by simp
  next
    case 2
    then show ?thesis .
  qed
qed

lemma rooms_step_kept:
  "map_of (rooms s) k = Some R \<Longrightarrow>
     \<exists>R'. map_of (rooms (fst (step s now d ev))) k = Some R' \<and> name R' = name R"
  by (cases ev)
     (auto simp: step_simps on_join_def on_send_message_def on_typing_def on_stop_typing_def
        on_switch_room_def leave_room_def on_private_message_def on_disconnect_def Let_def
        update_conv' room_name_kept case_prod_beta
        split: option.splits if_splits)

lemma default_room_exists:
  "reachable s \<Longrightarrow> \<exists>R. map_of (rooms s) ''general'' = Some R \<and> name R = ''General''"
proof (induction rule: reachable.induct)
  case (reachable_init t0)
  then show ?case by (simp add: init_rooms new_Room_def)
next
  case (reachable_step s now c ev)
  then obtain R where R: "map_of (rooms s) ''general'' = Some R" "name R = ''General''" by blast
  from rooms_step_kept[OF R(1), of now c ev] R(2) show ?case by auto
qed

text \<open>
  C9. In a reachable state, a \<open>join\<close> of a connected socket with no room in the payload
  registers it with current room \<open>general\<close> and puts it into the \<open>users\<close> set of the
  room stored under \<open>general\<close>, which is the default room General; a \<open>join\<close> naming room
  \<open>r\<close> does the same with the key \<open>toLowerCase r\<close>. Every room is stored under the
  lower-cased form of its name. Two joins whose room names have the same lower-cased form
  put both sockets into the same room, and both are registered with that key.
\<close>

theorem join_room_key:
  assumes "reachable s" and "connected s c" and "connected s d"
  shows "map_option room (users (fst (step s now c (Join un None))) c) = Some ''general''
       \<and> is_member (fst (step s now c (Join un None))) ''general'' c
       \<and> map_option room (users (fst (step s now c (Join un (Some r)))) c) = Some (toLowerCase r)
       \<and> is_member (fst (step s now c (Join un (Some r)))) (toLowerCase r) c
       \<and> (\<exists>G. map_of (rooms s) ''general'' = Some G \<and> name G = ''General'')
       \<and> (map_of (rooms s) k = Some R \<longrightarrow> k = toLowerCase (name R))
       \<and> (toLowerCase r1 = toLowerCase r2 \<longrightarrow>
            is_member (fst (run s [(t1, c, Join un1 (Some r1)), (t2, d, Join un2 (Some r2))]))
              (toLowerCase r1) c
          \<and> is_member (fst (run s [(t1, c, Join un1 (Some r1)), (t2, d, Join un2 (Some r2))]))
              (toLowerCase r1) d
          \<and> map_option room
              (users (fst (run s [(t1, c, Join un1 (Some r1)), (t2, d, Join un2 (Some r2))])) c)
              = Some (toLowerCase r1)
          \<and> map_option room
              (users (fst (run s [(t1, c, Join un1 (Some r1)), (t2, d, Join un2 (Some r2))])) d)
              = Some (toLowerCase r1))"
proof -
  have d1: "connected (fst (step s t1 c (Join un1 (Some r1)))) d"
    using assms(2,3) by (simp add: connected_step)
  have single: "map_option room (users (fst (step s now c (Join un None))) c) = Some ''general''"
    "is_member (fst (step s now c (Join un None))) ''general'' c"
    "map_option room (users (fst (step s now c (Join un (Some r)))) c) = Some (toLowerCase r)"
    "is_member (fst (step s now c (Join un (Some r)))) (toLowerCase r) c"
    using assms(2)
    by (simp_all add: users_step is_member_step default_room_def lower_examples)
  have two: "toLowerCase r1 = toLowerCase r2 \<longrightarrow>
            is_member (fst (run s [(t1, c, Join un1 (Some r1)), (t2, d, Join un2 (Some r2))]))
              (toLowerCase r1) c
          \<and> is_member (fst (run s [(t1, c, Join un1 (Some r1)), (t2, d, Join un2 (Some r2))]))
              (toLowerCase r1) d
          \<and> map_option room
              (users (fst (run s [(t1, c, Join un1 (Some r1)), (t2, d, Join un2 (Some r2))])) c)
              = Some (toLowerCase r1)
          \<and> map_option room
              (users (fst (run s [(t1, c, Join un1 (Some r1)), (t2, d, Join un2 (Some r2))])) d)
              = Some (toLowerCase r1)"
    using assms(2) d1
    by (simp add: case_prod_beta users_step is_member_step default_room_def)
  from single two room_keys_lower[OF assms(1), of k R] default_room_exists[OF assms(1)]
  show ?thesis by blast
qed

theorem join_room_key_witness:
  "connected joined_a_connected_b ''b'' \<and> connected joined_a_connected_b ''a''
   \<and> map_option room (users (fst (step joined_a_connected_b 3 ''b'' (Join ''bob'' None))) ''b'')
       = Some ''general''
   \<and> is_member (fst (step joined_a_connected_b 3 ''b'' (Join ''bob'' None))) ''general'' ''b''
   \<and> map_of (rooms joined_a_connected_b) ''tech'' = Some (new_Room ''Tech'' 0)
   \<and> ''tech'' = toLowerCase (name (new_Room ''Tech'' 0))
   \<and> toLowerCase ''GENERAL'' = toLowerCase ''General''
   \<and> is_member (fst (run joined_a_connected_b [(3, ''b'', Join ''bob'' (Some ''GENERAL'')),
         (4, ''a'', Join ''alice'' (Some ''General''))])) ''general'' ''b''
   \<and> is_member (fst (run joined_a_connected_b [(3, ''b'', Join ''bob'' (Some ''GENERAL'')),
         (4, ''a'', Join ''alice'' (Some ''General''))])) ''general'' ''a''"
proof -
  have c: "connected joined_a_connected_b ''b''" and d: "connected joined_a_connected_b ''a''"
    and t: "map_of (rooms joined_a_connected_b) ''tech'' = Some (new_Room ''Tech'' 0)"
    by (simp_all add: joined_a_connected_b_def eval_defs)
  from join_room_key[OF reachable_examples(3) c d, of 3 "''bob''" "''Tech''" "''tech''"
         "new_Room ''Tech'' 0" "''GENERAL''" "''General''" 3 "''bob''" 4 "''alice''"]
  show ?thesis using c d t by (simp add: lower_examples)
qed

section \<open>Switching to the current room\<close>

text \<open>
  C10. In a reachable state, a registered socket whose current room has key \<open>room u\<close> raises
  \<open>switch-room\<close> with a name whose lower-cased form is that key. Afterwards the room stored
  under the key has the same set of users, the same messages, name and creation time as
  before; the \<open>users\<close> map is the same, so the current room of the socket is too; every
  other room is as before; and the rooms are stored under the same keys in the same order.
\<close>

theorem switch_to_same_room:
  assumes "reachable s" and "users s c = Some u" and "toLowerCase r = room u"
  shows "(\<exists>R R'. map_of (rooms s) (room u) = Some R
            \<and> map_of (rooms (fst (step s now c (SwitchRoom r)))) (room u) = Some R'
            \<and> set (room_users R') = set (room_users R)
            \<and> messages R' = messages R \<and> name R' = name R \<and> createdAt R' = createdAt R)
       \<and> users (fst (step s now c (SwitchRoom r))) = users s
       \<and> (\<forall>k. k \<noteq> room u \<longrightarrow>
             map_of (rooms (fst (step s now c (SwitchRoom r)))) k = map_of (rooms s) k)
       \<and> map fst (rooms (fst (step s now c (SwitchRoom r)))) = map fst (rooms s)"
proof -
  from registered_inv[OF assms(1,2)] obtain R where
    conn: "connected s c" and R: "map_of (rooms s) (room u) = Some R" and mem: "c \<in> set (room_users R)"
    by (auto simp: is_member_def split: option.splits)
  have dom: "room u \<in> fst ` set (rooms s)"
    using map_of_SomeD[OF R] by force
  let ?R' = "addUser (removeUser R c) c"
  have rooms': "rooms (fst (step s now c (SwitchRoom r))) =
                  AList.update (room u) ?R' (AList.update (room u) (removeUser R c) (rooms s))"
    using conn assms(2,3) R
    by (simp add: step_simps on_switch_room_def leave_room_def Let_def update_conv')
  have users': "users (fst (step s now c (SwitchRoom r))) = users s"
    using conn assms(2,3) by (auto simp: users_step)
  have "set (room_users ?R') = set (room_users R)" "messages ?R' = messages R"
       "name ?R' = name R" "createdAt ?R' = createdAt R"
    using mem by (auto simp: addUser_def removeUser_def set_add_def set_delete_def)
  then show ?thesis
    using R users' dom unfolding rooms'
    by (auto simp: update_conv' update_keys)
qed

theorem switch_to_same_room_witness:
  "users joined_a_b ''a'' = Some \<lparr>uid = ''a'', username = ''alice'', room = ''general'', joinedAt = 2\<rparr>
   \<and> toLowerCase ''GENERAL'' = ''general''
   \<and> users (fst (step joined_a_b 3 ''a'' (SwitchRoom ''GENERAL''))) = users joined_a_b
   \<and> map_option (\<lambda>R. (set (room_users R), messages R))
        (map_of (rooms (fst (step joined_a_b 3 ''a'' (SwitchRoom ''GENERAL'')))) ''general'')
       = Some ({''a'', ''b''}, [])
   \<and> map_option (\<lambda>R. (set (room_users R), messages R)) (map_of (rooms joined_a_b) ''general'')
       = Some ({''a'', ''b''}, [])
   \<and> map_of (rooms (fst (step joined_a_b 3 ''a'' (SwitchRoom ''GENERAL'')))) ''tech''
       = map_of (rooms joined_a_b) ''tech''"
proof -
  have u: "users joined_a_b ''a'' =
             Some \<lparr>uid = ''a'', username = ''alice'', room = ''general'', joinedAt = 2\<rparr>"
    by (simp add: joined_a_b_def eval_defs)
  have l: "toLowerCase ''GENERAL'' = room \<lparr>uid = ''a'', username = ''alice'', room = ''general'', joinedAt = 2\<rparr>"
    by (simp add: lower_examples)
  have after: "map_option (\<lambda>R. (set (room_users R), messages R))
        (map_of (rooms (fst (step joined_a_b 3 ''a'' (SwitchRoom ''GENERAL'')))) ''general'')
       = Some ({''a'', ''b''}, [])"
    and before: "map_option (\<lambda>R. (set (room_users R), messages R)) (map_of (rooms joined_a_b) ''general'')
       = Some ({''a'', ''b''}, [])"
    by (auto simp: joined_a_b_def eval_defs)
  from switch_to_same_room[OF reachable_examples(4) u l, of 3]
  show ?thesis using u after before by (simp add: lower_examples)
qed

end
